theory Spec2Isabelle
  imports Main "HOL-Library.Sublist"
begin

section \<open>Data model of the component \<^verbatim>\<open>App\<close> (src/src/App.tsx)\<close>

text \<open>
  JavaScript strings are modelled as \<^typ>\<open>string\<close>; a character outside ASCII is written
  as the bytes of its UTF-8 encoding. The only string operations of the source are
  equality, \<^verbatim>\<open>endsWith\<close>, \<^verbatim>\<open>includes\<close> with ASCII arguments and the regular
  expression of \<^verbatim>\<open>handleSubmit\<close>, which read the same on the encoded form.

  A browser \<^verbatim>\<open>File\<close> carries \<^verbatim>\<open>name\<close>, \<^verbatim>\<open>size\<close> and \<^verbatim>\<open>type\<close>; its content is an
  opaque handle.
\<close>

record File =
  name :: string
  size_bytes :: nat
  mime_type :: string
  content :: nat

text \<open>\<^verbatim>\<open>type StatusState = { message: string; type: 'error' | 'success' | 'idle' }\<close>\<close>

datatype status_type = error | success | idle

record StatusState =
  message :: string
  stype :: status_type

text \<open>
  The four \<^verbatim>\<open>useState\<close> cells of the component. A handler is a function from the
  state to the state: the component is rendered again after every event
  (\<^verbatim>\<open>handleDrop\<close> is created again whenever \<^verbatim>\<open>files\<close> changes), so the \<^verbatim>\<open>files\<close> a
  handler reads and the \<^verbatim>\<open>prevFiles\<close> of its functional update are the same list, and
  the \<^verbatim>\<open>set...\<close> calls of one handler take effect in their order, the last one of a
  cell deciding its value.
\<close>

record app_state =
  files :: "File list"
  isLoading :: bool
  status :: StatusState
  isDragging :: bool

definition MAX_FILES :: nat where
  "MAX_FILES = 30"

definition initial_state :: app_state where
  "initial_state =
     \<lparr>files = [], isLoading = False, status = \<lparr>message = [], stype = idle\<rparr>,
      isDragging = False\<rparr>"

subsection \<open>String helpers\<close>

definition endsWith :: "string \<Rightarrow> string \<Rightarrow> bool" where
  "endsWith s t = suffix t s"

fun includes_str :: "string \<Rightarrow> string \<Rightarrow> bool" where
  "includes_str [] t = (t = [])"
| "includes_str (c # cs) t = (prefix t (c # cs) \<or> includes_str cs t)"

text \<open>The decimal rendering of a number inside a template literal.\<close>

definition digit_char :: "nat \<Rightarrow> char" where
  "digit_char d = ''0123456789'' ! d"

fun show_nat :: "nat \<Rightarrow> string" where
  "show_nat n = (if n < 10 then [digit_char n] else show_nat (n div 10) @ [digit_char (n mod 10)])"

subsection \<open>Status messages\<close>

text \<open>\<^verbatim>\<open>Voc\<close>e-circumflex\<^verbatim>\<open> j\<close>a-acute\<^verbatim>\<open> atingiu o limite de ${MAX_FILES} arquivos.\<close>\<close>

definition msg_already_full :: string where
  "msg_already_full =
     ''Voc'' @ [CHR 0xC3, CHR 0xAA] @ '' j'' @ [CHR 0xC3, CHR 0xA1] @
     '' atingiu o limite de '' @ show_nat MAX_FILES @ '' arquivos.''"

text \<open>\<^verbatim>\<open>Limite de ${MAX_FILES} arquivos atingido. ${filesToAdd.length} arquivo(s) foram adicionados.\<close>\<close>

definition msg_limit_partial :: "nat \<Rightarrow> string" where
  "msg_limit_partial k =
     ''Limite de '' @ show_nat MAX_FILES @ '' arquivos atingido. '' @ show_nat k @
     '' arquivo(s) foram adicionados.''"

text \<open>\<^verbatim>\<open>Limite de ${MAX_FILES} arquivos atingido. Nenhum arquivo novo foi adicionado.\<close>\<close>

definition msg_limit_none :: string where
  "msg_limit_none =
     ''Limite de '' @ show_nat MAX_FILES @
     '' arquivos atingido. Nenhum arquivo novo foi adicionado.''"

section \<open>Intake: \<^verbatim>\<open>addFiles\<close>, \<^verbatim>\<open>removeFile\<close>, \<^verbatim>\<open>clearAll\<close>\<close>

definition docx_mime :: string where
  "docx_mime = ''application/vnd.openxmlformats-officedocument.wordprocessingml.document''"

definition isDocx :: "File \<Rightarrow> bool" where
  "isDocx f = (endsWith (name f) ''.docx'' \<or> mime_type f = docx_mime)"

text \<open>\<^verbatim>\<open>files.some(f => f.name === file.name && f.size === file.size)\<close>\<close>

definition isDuplicate :: "File list \<Rightarrow> File \<Rightarrow> bool" where
  "isDuplicate fs f = list_ex (\<lambda>g. name g = name f \<and> size_bytes g = size_bytes f) fs"

text \<open>
  The body of \<^verbatim>\<open>Array.from(newFiles).forEach\<close>: the locals \<^verbatim>\<open>filesToAdd\<close> and
  \<^verbatim>\<open>limitReached\<close> are threaded through the iterations. The \<^verbatim>\<open>return\<close> of the capacity
  test ends one iteration only, so the remaining files are still visited. The duplicate
  test reads \<^verbatim>\<open>files\<close> (the batch), not \<^verbatim>\<open>filesToAdd\<close>.
\<close>

fun addFiles_loop :: "File list \<Rightarrow> File list \<Rightarrow> bool \<Rightarrow> File list \<Rightarrow> File list \<times> bool" where
  "addFiles_loop fs filesToAdd limitReached [] = (filesToAdd, limitReached)"
| "addFiles_loop fs filesToAdd limitReached (f # rest) =
     (if length fs + length filesToAdd \<ge> MAX_FILES
      then addFiles_loop fs filesToAdd True rest
      else if isDocx f \<and> \<not> isDuplicate fs f
      then addFiles_loop fs (filesToAdd @ [f]) limitReached rest
      else addFiles_loop fs filesToAdd limitReached rest)"

definition addFiles :: "app_state \<Rightarrow> File list \<Rightarrow> app_state" where
  "addFiles st newFiles =
     (let st1 = st\<lparr>status := \<lparr>message = [], stype = idle\<rparr>\<rparr> in
      if length (files st1) \<ge> MAX_FILES
      then st1\<lparr>status := \<lparr>message = msg_already_full, stype = error\<rparr>\<rparr>
      else
        let (filesToAdd, limitReached) = addFiles_loop (files st1) [] False newFiles;
            st2 = (if limitReached \<and> length filesToAdd > 0
                   then st1\<lparr>status := \<lparr>message = msg_limit_partial (length filesToAdd),
                                         stype = error\<rparr>\<rparr>
                   else if limitReached
                   then st1\<lparr>status := \<lparr>message = msg_limit_none, stype = error\<rparr>\<rparr>
                   else st1)
        in st2\<lparr>files := files st2 @ filesToAdd\<rparr>)"

text \<open>
  \<^verbatim>\<open>prevFiles.filter((_, i) => i !== index)\<close>. The index is a JavaScript number; an
  integer stands for it here.
\<close>

definition removeFile :: "app_state \<Rightarrow> int \<Rightarrow> app_state" where
  "removeFile st index =
     st\<lparr>files := map fst (filter (\<lambda>(f, i). int i \<noteq> index)
                               (zip (files st) [0..<length (files st)]))\<rparr>"

definition clearAll :: "app_state \<Rightarrow> app_state" where
  "clearAll st = st\<lparr>files := [], status := \<lparr>message = [], stype = idle\<rparr>\<rparr>"

section \<open>Submission: \<^verbatim>\<open>handleSubmit\<close>\<close>

text \<open>
  What the environment does is an input of the model. A promise either resolves to a
  value or rejects with an \<^verbatim>\<open>Error\<close>, of which the handler reads the \<^verbatim>\<open>message\<close> only.
\<close>

datatype 'a promise = Resolves 'a | Rejects string

text \<open>
  The response of \<^verbatim>\<open>fetch\<close>: its status (\<^verbatim>\<open>response.ok\<close> is true for 200 to 299), the
  value of \<^verbatim>\<open>response.headers.get('content-disposition')\<close> (\<^verbatim>\<open>null\<close> is \<open>None\<close>), and
  what reading the body with \<^verbatim>\<open>text()\<close> or \<^verbatim>\<open>blob()\<close> settles to. A header value is a
  byte string, which is what \<^typ>\<open>string\<close> holds.
\<close>

record response =
  http_status :: nat
  content_disposition :: "string option"
  body :: "string promise"

definition ok :: "response \<Rightarrow> bool" where
  "ok r = (200 \<le> http_status r \<and> http_status r \<le> 299)"

text \<open>
  The effects of the handler outside the component's state, in the order they happen:
  the POST of the form data to \<^verbatim>\<open>API_URL\<close>, \<^verbatim>\<open>console.error\<close> with its two arguments,
  and the steps of the download (the anchor carries the \<^verbatim>\<open>download\<close> name it is
  appended and clicked with).
\<close>

datatype effect =
    Fetch string "(string \<times> File) list"
  | ConsoleError string string
  | CreateObjectURL string
  | AppendAnchor string
  | ClickAnchor string
  | RevokeObjectURL
  | RemoveAnchor

text \<open>\<^verbatim>\<open>Opa! Voc\<close>e-circumflex\<^verbatim>\<open> precisa selecionar um arquivo .docx primeiro.\<close>\<close>

definition msg_empty_submission :: string where
  "msg_empty_submission =
     ''Opa! Voc'' @ [CHR 0xC3, CHR 0xAA] @ '' precisa selecionar um arquivo .docx primeiro.''"

text \<open>
  \<^verbatim>\<open>Prontinho! \<close>(sparkles, U+2728)\<^verbatim>\<open> Convers\<close>a-tilde\<^verbatim>\<open>o conclu\<close>i-acute\<^verbatim>\<open>da, seu download vai
  come\<close>c-cedilla\<^verbatim>\<open>ar.\<close>
\<close>

definition msg_success :: string where
  "msg_success =
     ''Prontinho! '' @ [CHR 0xE2, CHR 0x9C, CHR 0xA8] @ '' Convers'' @ [CHR 0xC3, CHR 0xA3] @
     ''o conclu'' @ [CHR 0xC3, CHR 0xAD] @ ''da, seu download vai come'' @ [CHR 0xC3, CHR 0xA7] @
     ''ar.''"

text \<open>\<^verbatim>\<open>Opa! N\<close>a-tilde\<^verbatim>\<open>o consegui conectar ao servidor. Tente de novo daqui a pouco.\<close>\<close>

definition msg_network :: string where
  "msg_network =
     ''Opa! N'' @ [CHR 0xC3, CHR 0xA3] @
     ''o consegui conectar ao servidor. Tente de novo daqui a pouco.''"

definition msg_server :: string where
  "msg_server = ''Ih, deu um probleminha no servidor ao tentar converter. Tente novamente!''"

definition msg_unexpected :: string where
  "msg_unexpected = ''Ocorreu um erro inesperado. Por favor, tente de novo.''"

text \<open>\<^verbatim>\<open>Erro na convers\<close>a-tilde\<^verbatim>\<open>o:\<close>, the first argument of the \<^verbatim>\<open>console.error\<close> of the catch.\<close>

definition log_conversion :: string where
  "log_conversion = ''Erro na convers'' @ [CHR 0xC3, CHR 0xA3] @ ''o:''"

subsection \<open>The regular expression \<^verbatim>\<open>/filename="(.+?)"/\<close>\<close>

text \<open>
  \<^verbatim>\<open>contentDisposition.match(re)\<close> with a regular expression without flags finds the
  first position of the string where the pattern matches. At a position the pattern
  reads the literal \<^verbatim>\<open>filename="\<close>, then the group: one character that is not a line
  terminator, and (the quantifier is lazy) as few more as needed until the next character
  is the closing quote. The group may so start with a quote, and a line terminator before
  the closing quote fails the match at that position.
\<close>

definition dquote :: char where
  "dquote = CHR 0x22"

definition dot_char :: "char \<Rightarrow> bool" where
  "dot_char c = (c \<noteq> CHR 0x0A \<and> c \<noteq> CHR 0x0D)"

definition filename_key :: string where
  "filename_key = ''filename='' @ [dquote]"

fun lazy_group :: "string \<Rightarrow> string \<Rightarrow> string option" where
  "lazy_group acc [] = None"
| "lazy_group acc (c # cs) =
     (if c = dquote then Some acc
      else if dot_char c then lazy_group (acc @ [c]) cs
      else None)"

definition match_at :: "string \<Rightarrow> string option" where
  "match_at s =
     (if prefix filename_key s
      then (case drop (length filename_key) s of
              [] \<Rightarrow> None
            | c # cs \<Rightarrow> if dot_char c then lazy_group [c] cs else None)
      else None)"

fun filenameMatch :: "string \<Rightarrow> string option" where
  "filenameMatch [] = match_at []"
| "filenameMatch (c # cs) =
     (case match_at (c # cs) of Some v \<Rightarrow> Some v | None \<Rightarrow> filenameMatch cs)"

definition default_filename :: string where
  "default_filename = ''converted-files.zip''"

text \<open>
  The \<^verbatim>\<open>filename\<close> local: the default, replaced when the header is there (an empty
  string is falsy), the pattern matches and the match has its group.
\<close>

definition filename :: "string option \<Rightarrow> string" where
  "filename contentDisposition =
     (case contentDisposition of
        None \<Rightarrow> default_filename
      | Some h \<Rightarrow>
          if h = [] then default_filename
          else (case filenameMatch h of
                  None \<Rightarrow> default_filename
                | Some v \<Rightarrow> v))"

subsection \<open>The handler\<close>

text \<open>\<^verbatim>\<open>files.forEach(file => formData.append('files', file))\<close>\<close>

definition formData :: "File list \<Rightarrow> (string \<times> File) list" where
  "formData fs = map (\<lambda>f. (''files'', f)) fs"

text \<open>
  The handler up to its first \<^verbatim>\<open>await\<close>: the state, the effects, and whether a request
  is now pending.
\<close>

definition handleSubmit_start :: "string \<Rightarrow> app_state \<Rightarrow> app_state \<times> effect list \<times> bool" where
  "handleSubmit_start API_URL st =
     (if length (files st) = 0
      then (st\<lparr>status := \<lparr>message = msg_empty_submission, stype = error\<rparr>\<rparr>, [], False)
      else (st\<lparr>isLoading := True, status := \<lparr>message = [], stype = idle\<rparr>\<rparr>,
            [Fetch API_URL (formData (files st))], True))"

text \<open>
  The \<^verbatim>\<open>try\<close> block from the settled \<^verbatim>\<open>fetch\<close> on: the state, the effects, and the
  message of the error thrown, if one is. On success \<^verbatim>\<open>setStatus\<close> is followed by
  \<^verbatim>\<open>clearAll()\<close>, which sets the files and the status again.
\<close>

definition submit_try :: "app_state \<Rightarrow> response promise \<Rightarrow> app_state \<times> effect list \<times> string option" where
  "submit_try st p =
     (case p of
        Rejects m \<Rightarrow> (st, [], Some m)
      | Resolves r \<Rightarrow>
          if \<not> ok r
          then (case body r of
                  Rejects m \<Rightarrow> (st, [], Some m)
                | Resolves errorText \<Rightarrow>
                    (st, [ConsoleError ''Erro do servidor:'' errorText], Some ''server_error''))
          else (case body r of
                  Rejects m \<Rightarrow> (st, [], Some m)
                | Resolves blob \<Rightarrow>
                    let fn = filename (content_disposition r);
                        st1 = st\<lparr>status := \<lparr>message = msg_success, stype = success\<rparr>\<rparr>
                    in (clearAll st1,
                        [CreateObjectURL blob, AppendAnchor fn, ClickAnchor fn,
                         RevokeObjectURL, RemoveAnchor],
                        None)))"

text \<open>The \<^verbatim>\<open>catch\<close> block, on the message of the error caught.\<close>

definition submit_catch :: "app_state \<Rightarrow> string \<Rightarrow> app_state \<times> effect list" where
  "submit_catch st m =
     (let fx = [ConsoleError log_conversion m] in
      if includes_str m ''Failed to fetch''
      then (st\<lparr>status := \<lparr>message = msg_network, stype = error\<rparr>\<rparr>, fx)
      else if m = ''server_error''
      then (st\<lparr>status := \<lparr>message = msg_server, stype = error\<rparr>\<rparr>, fx)
      else (st\<lparr>status := \<lparr>message = msg_unexpected, stype = error\<rparr>\<rparr>, fx))"

text \<open>The handler from the settled \<^verbatim>\<open>fetch\<close> to its end, \<^verbatim>\<open>finally\<close> included.\<close>

definition handleSubmit_resume :: "app_state \<Rightarrow> response promise \<Rightarrow> app_state \<times> effect list" where
  "handleSubmit_resume st p =
     (let (st1, fx1, thrown) = submit_try st p;
          (st2, fx2) = (case thrown of None \<Rightarrow> (st1, []) | Some m \<Rightarrow> submit_catch st1 m)
      in (st2\<lparr>isLoading := False\<rparr>, fx1 @ fx2))"

text \<open>A whole run of the handler, with nothing happening in between.\<close>

definition handleSubmit :: "string \<Rightarrow> app_state \<Rightarrow> response promise \<Rightarrow> app_state \<times> effect list" where
  "handleSubmit API_URL st p =
     (let (st1, fx1, pending) = handleSubmit_start API_URL st in
      if pending
      then (let (st2, fx2) = handleSubmit_resume st1 p in (st2, fx1 @ fx2))
      else (st1, fx1))"

section \<open>The rendered interface: which handler an event reaches\<close>

text \<open>
  The events of the JSX: a drop on the drop zone, a change of the file input, a click
  on the remove button of row \<open>i\<close>, on the convert button and on the clear button, and
  the settling of the pending request.
\<close>

datatype event =
    Drop "File list"
  | DragOver
  | DragLeave
  | FileChange "File list option"
  | RemoveClick nat
  | ConvertClick
  | ClearClick
  | Settled "response promise"

definition handleDrop :: "app_state \<Rightarrow> File list \<Rightarrow> app_state" where
  "handleDrop st fs = addFiles (st\<lparr>isDragging := False\<rparr>) fs"

definition handleDragOver :: "app_state \<Rightarrow> app_state" where
  "handleDragOver st = st\<lparr>isDragging := True\<rparr>"

definition handleDragLeave :: "app_state \<Rightarrow> app_state" where
  "handleDragLeave st = st\<lparr>isDragging := False\<rparr>"

definition handleFileChange :: "app_state \<Rightarrow> File list option \<Rightarrow> app_state" where
  "handleFileChange st target_files =
     (case target_files of None \<Rightarrow> st | Some fs \<Rightarrow> addFiles st fs)"

text \<open>
  The component with the requests in flight and the effects so far.
\<close>

record ui =
  app :: app_state
  pending :: nat
  effects :: "effect list"

text \<open>
  What the markup lets through. The drop zone has \<^verbatim>\<open>onDrop\<close>, \<^verbatim>\<open>onDragOver\<close> and
  \<^verbatim>\<open>onDragLeave\<close> with no condition. The file input, the remove buttons and the clear
  button have \<^verbatim>\<open>disabled={isLoading}\<close>; the convert button has
  \<^verbatim>\<open>disabled={isLoading || files.length === 0}\<close>. A remove button exists for each
  row of the list. The container of the two action buttons gets the style class
  \<^verbatim>\<open>hidden\<close> while the list is empty, which is no condition on a handler.
\<close>

definition enabled :: "ui \<Rightarrow> event \<Rightarrow> bool" where
  "enabled u ev =
     (case ev of
        Drop fs \<Rightarrow> True
      | DragOver \<Rightarrow> True
      | DragLeave \<Rightarrow> True
      | FileChange fs \<Rightarrow> \<not> isLoading (app u)
      | RemoveClick i \<Rightarrow> i < length (files (app u)) \<and> \<not> isLoading (app u)
      | ConvertClick \<Rightarrow> \<not> (isLoading (app u) \<or> length (files (app u)) = 0)
      | ClearClick \<Rightarrow> \<not> isLoading (app u)
      | Settled p \<Rightarrow> 0 < pending u)"

definition dispatch :: "string \<Rightarrow> ui \<Rightarrow> event \<Rightarrow> ui" where
  "dispatch API_URL u ev =
     (case ev of
        Drop fs \<Rightarrow> u\<lparr>app := handleDrop (app u) fs\<rparr>
      | DragOver \<Rightarrow> u\<lparr>app := handleDragOver (app u)\<rparr>
      | DragLeave \<Rightarrow> u\<lparr>app := handleDragLeave (app u)\<rparr>
      | FileChange fs \<Rightarrow> u\<lparr>app := handleFileChange (app u) fs\<rparr>
      | RemoveClick i \<Rightarrow> u\<lparr>app := removeFile (app u) (int i)\<rparr>
      | ConvertClick \<Rightarrow>
          (let (st, fx, started) = handleSubmit_start API_URL (app u)
           in u\<lparr>app := st, pending := pending u + (if started then 1 else 0),
                 effects := effects u @ fx\<rparr>)
      | ClearClick \<Rightarrow> u\<lparr>app := clearAll (app u)\<rparr>
      | Settled p \<Rightarrow>
          (let (st, fx) = handleSubmit_resume (app u) p
           in u\<lparr>app := st, pending := pending u - 1, effects := effects u @ fx\<rparr>))"

definition ui_step :: "string \<Rightarrow> ui \<Rightarrow> event \<Rightarrow> ui" where
  "ui_step API_URL u ev = (if enabled u ev then dispatch API_URL u ev else u)"

definition ui_run :: "string \<Rightarrow> ui \<Rightarrow> event list \<Rightarrow> ui" where
  "ui_run API_URL u evs = foldl (ui_step API_URL) u evs"

definition initial_ui :: ui where
  "initial_ui = \<lparr>app = initial_state, pending = 0, effects = []\<rparr>"

section \<open>Predicates of the statements\<close>

text \<open>The identity of a candidate, and a batch without two candidates of one identity.\<close>

definition file_key :: "File \<Rightarrow> string \<times> nat" where
  "file_key f = (name f, size_bytes f)"

definition batch_unique :: "File list \<Rightarrow> bool" where
  "batch_unique fs = distinct (map file_key fs)"

text \<open>
  A transfer fails when the \<^verbatim>\<open>try\<close> block throws: \<^verbatim>\<open>fetch\<close> rejects, the response
  is not ok, or reading the body rejects.
\<close>

definition transfer_fails :: "response promise \<Rightarrow> bool" where
  "transfer_fails p =
     (case p of
        Rejects m \<Rightarrow> True
      | Resolves r \<Rightarrow> \<not> ok r \<or> (case body r of Rejects m \<Rightarrow> True | Resolves b \<Rightarrow> False))"

text \<open>
  The pattern \<^verbatim>\<open>filename="(.+?)"\<close> read as a relation: it matches the header \<open>h\<close>
  at position \<open>i\<close> with the group \<open>v\<close> when \<open>v\<close> is a non-empty run of characters
  other than line terminators, between \<^verbatim>\<open>filename="\<close> and a quote, starting at
  \<open>i\<close>. What \<^verbatim>\<open>match\<close> captures is the group of the match at the least position,
  and there the shortest one (the quantifier is lazy).
\<close>

definition pattern_at :: "string \<Rightarrow> nat \<Rightarrow> string \<Rightarrow> bool" where
  "pattern_at h i v =
     (v \<noteq> [] \<and> list_all dot_char v \<and> prefix (filename_key @ v @ [dquote]) (drop i h))"

definition captures :: "string \<Rightarrow> string \<Rightarrow> bool" where
  "captures h v =
     (\<exists>i. pattern_at h i v \<and>
          (\<forall>j w. pattern_at h j w \<longrightarrow> i < j \<or> (i = j \<and> length v \<le> length w)))"

text \<open>
  What holds of the interface after any events: the requests in flight are one while
  \<^verbatim>\<open>isLoading\<close> and none otherwise, and the batch is within the limit.
\<close>

definition ui_inv :: "ui \<Rightarrow> bool" where
  "ui_inv u =
     (pending u = (if isLoading (app u) then 1 else 0) \<and> length (files (app u)) \<le> MAX_FILES)"

section \<open>The earlier variant of the component (src/unnamed/part_000)\<close>

text \<open>
  The second file of the repository is an earlier variant of the same component. It
  differs from src/src/App.tsx in \<^verbatim>\<open>addFiles\<close>, which has no limit, and in
  \<^verbatim>\<open>handleSubmit\<close>: the error thrown for a response that is not ok carries the text of
  the body, and the catch block shows the message of any error that is not a failed
  fetch. The messages differ too.
\<close>

definition addFiles_part000 :: "app_state \<Rightarrow> File list \<Rightarrow> app_state" where
  "addFiles_part000 st newFiles =
     (let st1 = st\<lparr>status := \<lparr>message = [], stype = idle\<rparr>\<rparr>;
          filesToAdd = filter (\<lambda>f. isDocx f \<and> \<not> isDuplicate (files st1) f) newFiles
      in st1\<lparr>files := files st1 @ filesToAdd\<rparr>)"

definition msg_server_part000 :: string where
  "msg_server_part000 = ''Erro no servidor. Verifique o console do Docker.''"

text \<open>
  \<^verbatim>\<open>Erro de conex\<close>a-tilde\<^verbatim>\<open>o: N\<close>a-tilde\<^verbatim>\<open>o foi poss\<close>i-acute\<^verbatim>\<open>vel acessar o servidor. O Docker
  est\<close>a-acute\<^verbatim>\<open> rodando?\<close>
\<close>

definition msg_network_part000 :: string where
  "msg_network_part000 =
     ''Erro de conex'' @ [CHR 0xC3, CHR 0xA3] @ ''o: N'' @ [CHR 0xC3, CHR 0xA3] @
     ''o foi poss'' @ [CHR 0xC3, CHR 0xAD] @ ''vel acessar o servidor. O Docker est'' @
     [CHR 0xC3, CHR 0xA1] @ '' rodando?''"

text \<open>
  \<^verbatim>\<open>Convers\<close>a-tilde\<^verbatim>\<open>o conclu\<close>i-acute\<^verbatim>\<open>da! O download do .zip come\<close>c-cedilla\<^verbatim>\<open>ou.\<close>
\<close>

definition msg_success_part000 :: string where
  "msg_success_part000 =
     ''Convers'' @ [CHR 0xC3, CHR 0xA3] @ ''o conclu'' @ [CHR 0xC3, CHR 0xAD] @
     ''da! O download do .zip come'' @ [CHR 0xC3, CHR 0xA7] @ ''ou.''"

text \<open>\<^verbatim>\<open>throw new Error(errorText || '...')\<close>: an empty text is falsy.\<close>

definition submit_try_part000 ::
  "app_state \<Rightarrow> response promise \<Rightarrow> app_state \<times> effect list \<times> string option" where
  "submit_try_part000 st p =
     (case p of
        Rejects m \<Rightarrow> (st, [], Some m)
      | Resolves r \<Rightarrow>
          if \<not> ok r
          then (case body r of
                  Rejects m \<Rightarrow> (st, [], Some m)
                | Resolves errorText \<Rightarrow>
                    (st, [], Some (if errorText = [] then msg_server_part000 else errorText)))
          else (case body r of
                  Rejects m \<Rightarrow> (st, [], Some m)
                | Resolves blob \<Rightarrow>
                    let fn = filename (content_disposition r);
                        st1 = st\<lparr>status := \<lparr>message = msg_success_part000, stype = success\<rparr>\<rparr>
                    in (clearAll st1,
                        [CreateObjectURL blob, AppendAnchor fn, ClickAnchor fn,
                         RevokeObjectURL, RemoveAnchor],
                        None)))"

definition submit_catch_part000 :: "app_state \<Rightarrow> string \<Rightarrow> app_state \<times> effect list" where
  "submit_catch_part000 st m =
     (let fx = [ConsoleError log_conversion m] in
      if includes_str m ''Failed to fetch''
      then (st\<lparr>status := \<lparr>message = msg_network_part000, stype = error\<rparr>\<rparr>, fx)
      else (st\<lparr>status := \<lparr>message = m, stype = error\<rparr>\<rparr>, fx))"

text \<open>\<^verbatim>\<open>Por favor, selecione pelo menos um arquivo .docx\<close>\<close>

definition msg_empty_submission_part000 :: string where
  "msg_empty_submission_part000 = ''Por favor, selecione pelo menos um arquivo .docx''"

definition handleSubmit_start_part000 ::
  "string \<Rightarrow> app_state \<Rightarrow> app_state \<times> effect list \<times> bool" where
  "handleSubmit_start_part000 API_URL st =
     (if length (files st) = 0
      then (st\<lparr>status := \<lparr>message = msg_empty_submission_part000, stype = error\<rparr>\<rparr>, [], False)
      else (st\<lparr>isLoading := True, status := \<lparr>message = [], stype = idle\<rparr>\<rparr>,
            [Fetch API_URL (formData (files st))], True))"

definition handleSubmit_resume_part000 ::
  "app_state \<Rightarrow> response promise \<Rightarrow> app_state \<times> effect list" where
  "handleSubmit_resume_part000 st p =
     (let (st1, fx1, thrown) = submit_try_part000 st p;
          (st2, fx2) = (case thrown of None \<Rightarrow> (st1, [])
                        | Some m \<Rightarrow> submit_catch_part000 st1 m)
      in (st2\<lparr>isLoading := False\<rparr>, fx1 @ fx2))"

definition handleSubmit_part000 ::
  "string \<Rightarrow> app_state \<Rightarrow> response promise \<Rightarrow> app_state \<times> effect list" where
  "handleSubmit_part000 API_URL st p =
     (let (st1, fx1, pending) = handleSubmit_start_part000 API_URL st in
      if pending
      then (let (st2, fx2) = handleSubmit_resume_part000 st1 p in (st2, fx1 @ fx2))
      else (st1, fx1))"

section \<open>Sample inputs\<close>

text \<open>Concrete files and states, for the evaluations below.\<close>

definition numbered_docx :: "nat \<Rightarrow> File" where
  "numbered_docx i =
     \<lparr>name = show_nat i @ ''.docx'', size_bytes = 1000 + i, mime_type = docx_mime, content = i\<rparr>"

definition doc_a :: File where
  "doc_a = \<lparr>name = ''a.docx'', size_bytes = 10, mime_type = [], content = 1\<rparr>"

definition doc_a_again :: File where
  "doc_a_again = \<lparr>name = ''a.docx'', size_bytes = 10, mime_type = [], content = 2\<rparr>"

definition doc_b :: File where
  "doc_b = \<lparr>name = ''b.docx'', size_bytes = 20, mime_type = [], content = 3\<rparr>"

definition notes_txt :: File where
  "notes_txt = \<lparr>name = ''notes.txt'', size_bytes = 5, mime_type = ''text/plain'', content = 4\<rparr>"

definition with_files :: "File list \<Rightarrow> app_state" where
  "with_files fs = initial_state\<lparr>files := fs\<rparr>"

definition api_url :: string where
  "api_url = ''http://localhost:3001/convert''"

definition out_zip_response :: response where
  "out_zip_response =
     \<lparr>http_status = 200,
      content_disposition = Some (''attachment; filename='' @ [dquote] @ ''out.zip'' @ [dquote]),
      body = Resolves ''PK''\<rparr>"

definition server_error_response :: "string \<Rightarrow> response" where
  "server_error_response t = \<lparr>http_status = 500, content_disposition = None, body = Resolves t\<rparr>"

section \<open>Removal\<close>

lemma filter_zip_keep:
  "\<forall>i. k \<le> i \<and> i < k + length xs \<longrightarrow> int i \<noteq> index \<Longrightarrow>
   map fst (filter (\<lambda>(f, i). int i \<noteq> index) (zip xs [k..<k + length xs])) = xs"
proof (induction xs arbitrary: k)
  case Nil
  then show ?case by simp
next
  case (Cons x xs)
  have upt: "[k..<k + length (x # xs)] = k # [Suc k..<Suc k + length xs]"
    by (simp add: upt_rec)
  have "int k \<noteq> index" using Cons.prems by auto
  moreover have "map fst (filter (\<lambda>(f, i). int i \<noteq> index) (zip xs [Suc k..<Suc k + length xs])) = xs"
    using Cons.prems by (intro Cons.IH) auto
  ultimately show ?case unfolding upt by simp
qed

lemma filter_zip_drop:
  "n < length xs \<Longrightarrow>
   map fst (filter (\<lambda>(f, i). int i \<noteq> int (k + n)) (zip xs [k..<k + length xs])) =
     take n xs @ drop (Suc n) xs"
proof (induction xs arbitrary: k n)
  case Nil
  then show ?case by simp
next
  case (Cons x xs)
  have upt: "[k..<k + length (x # xs)] = k # [Suc k..<Suc k + length xs]"
    by (simp add: upt_rec)
  show ?case
  proof (cases n)
    case 0
    have "map fst (filter (\<lambda>(f, i). int i \<noteq> int k) (zip xs [Suc k..<Suc k + length xs])) = xs"
      by (intro filter_zip_keep) auto
    with 0 show ?thesis unfolding upt by simp
  next
    case (Suc m)
    then have "m < length xs" using Cons.prems by simp
    from Cons.IH [OF this, of "Suc k"] Suc show ?thesis
      unfolding upt by simp
  qed
qed

lemma removeFile_outside:
  "index < 0 \<or> int (length (files st)) \<le> index \<Longrightarrow> removeFile st index = st"
proof -
  assume "index < 0 \<or> int (length (files st)) \<le> index"
  then have "\<forall>i. 0 \<le> i \<and> i < 0 + length (files st) \<longrightarrow> int i \<noteq> index"
    by auto
  from filter_zip_keep [OF this] show ?thesis
    by (simp add: removeFile_def)
qed

lemma removeFile_inside:
  "n < length (files st) \<Longrightarrow>
   files (removeFile st (int n)) = take n (files st) @ drop (Suc n) (files st)"
  using filter_zip_drop [of n "files st" 0] by (simp add: removeFile_def)

text \<open>
  C5. For an index outside \<open>[0, length)\<close>, \<^verbatim>\<open>removeFile\<close> returns the state, and so the
  batch, unchanged; it is a total function, as the \<^verbatim>\<open>filter\<close> of the source, which
  never throws. For an index in range it removes exactly the candidate at that position:
  the candidates before and after it stay, in their order, and nothing but the batch
  changes.
\<close>

theorem removeFile_index:
  "(index < 0 \<or> int (length (files st)) \<le> index \<longrightarrow> removeFile st index = st) \<and>
   (0 \<le> index \<and> index < int (length (files st)) \<longrightarrow>
      files (removeFile st index) =
        take (nat index) (files st) @ drop (Suc (nat index)) (files st) \<and>
      length (files (removeFile st index)) = length (files st) - 1 \<and>
      removeFile st index = st\<lparr>files := files (removeFile st index)\<rparr>)"
proof (intro conjI impI)
  assume "index < 0 \<or> int (length (files st)) \<le> index"
  then show "removeFile st index = st"
    by (rule removeFile_outside)
next
  assume r: "0 \<le> index \<and> index < int (length (files st))"
  then have n: "nat index < length (files st)" "int (nat index) = index"
    by auto
  from removeFile_inside [OF n(1)] n(2)
  show eq: "files (removeFile st index) =
      take (nat index) (files st) @ drop (Suc (nat index)) (files st)"
    by simp
  from n(1) show "length (files (removeFile st index)) = length (files st) - 1"
    unfolding eq by simp
  show "removeFile st index = st\<lparr>files := files (removeFile st index)\<rparr>"
    by (simp add: removeFile_def)
qed

theorem removeFile_index_witness:
  "removeFile (with_files [doc_a, doc_b]) 2 = with_files [doc_a, doc_b] \<and>
   removeFile (with_files [doc_a, doc_b]) (- 1) = with_files [doc_a, doc_b] \<and>
   files (removeFile (with_files [doc_a, doc_b]) 0) = [doc_b] \<and>
   files (removeFile (with_files [doc_a, doc_b]) 1) = [doc_a]"
  using removeFile_index [of 2 "with_files [doc_a, doc_b]"]
    removeFile_index [of "- 1" "with_files [doc_a, doc_b]"]
    removeFile_index [of 0 "with_files [doc_a, doc_b]"]
    removeFile_index [of 1 "with_files [doc_a, doc_b]"]
  by (simp add: with_files_def initial_state_def)

section \<open>Admission\<close>

lemma addFiles_loop_fst:
  "fst (addFiles_loop fs acc lim rest) =
     acc @ take (MAX_FILES - (length fs + length acc)) (filter (\<lambda>f. isDocx f \<and> \<not> isDuplicate fs f) rest)"
proof (induction rest arbitrary: acc lim)
  case Nil
  then show ?case by simp
next
  case (Cons f rest)
  show ?case
  proof (cases "MAX_FILES \<le> length fs + length acc")
    case True
    then show ?thesis using Cons.IH [of acc True] by simp
  next
    case False
    then obtain k where k: "MAX_FILES - (length fs + length acc) = Suc k"
      by (metis Suc_diff_Suc linorder_not_le not0_implies_Suc)
    then have k': "MAX_FILES - (length fs + Suc (length acc)) = k" by simp
    show ?thesis
      using False Cons.IH [of "acc @ [f]" lim] Cons.IH [of acc lim] k k' by simp
  qed
qed

lemma addFiles_loop_snd_all:
  "list_all (\<lambda>f. isDocx f \<and> \<not> isDuplicate fs f) rest \<Longrightarrow>
   snd (addFiles_loop fs acc lim rest) =
     (lim \<or> MAX_FILES - (length fs + length acc) < length rest)"
proof (induction rest arbitrary: acc lim)
  case Nil
  then show ?case by simp
next
  case (Cons f rest)
  then have all: "list_all (\<lambda>f. isDocx f \<and> \<not> isDuplicate fs f) rest"
    and el: "isDocx f" "\<not> isDuplicate fs f" by simp_all
  show ?case
  proof (cases "MAX_FILES \<le> length fs + length acc")
    case True
    then show ?thesis using Cons.IH [OF all, of acc True] by simp
  next
    case False
    then show ?thesis using Cons.IH [OF all, of "acc @ [f]" lim] el by auto
  qed
qed

lemma addFiles_loop_snd:
  "snd (addFiles_loop fs acc lim rest) \<Longrightarrow>
     lim \<or> MAX_FILES \<le> length fs + length (fst (addFiles_loop fs acc lim rest))"
proof (induction rest arbitrary: acc lim)
  case Nil
  then show ?case by simp
next
  case (Cons f rest)
  show ?case
  proof (cases "MAX_FILES \<le> length fs + length acc")
    case True
    then show ?thesis by (simp add: addFiles_loop_fst)
  next
    case False
    then show ?thesis using Cons.IH Cons.prems by (auto split: if_splits)
  qed
qed

lemma addFiles_loop_none:
  "list_all (\<lambda>f. \<not> isDocx f \<or> isDuplicate fs f) rest \<Longrightarrow> length fs + length acc < MAX_FILES \<Longrightarrow>
   addFiles_loop fs acc lim rest = (acc, lim)"
  by (induction rest arbitrary: acc lim) auto

lemma addFiles_full:
  "MAX_FILES \<le> length (files st) \<Longrightarrow>
   addFiles st fs = st\<lparr>status := \<lparr>message = msg_already_full, stype = error\<rparr>\<rparr>"
  by (simp add: addFiles_def)

lemma addFiles_files:
  "files (addFiles st fs) =
     files st @ take (MAX_FILES - length (files st))
                  (filter (\<lambda>f. isDocx f \<and> \<not> isDuplicate (files st) f) fs)"
proof (cases "MAX_FILES \<le> length (files st)")
  case True
  then show ?thesis by (simp add: addFiles_full)
next
  case False
  obtain added lim where l: "addFiles_loop (files st) [] False fs = (added, lim)"
    by (cases "addFiles_loop (files st) [] False fs")
  have "added = fst (addFiles_loop (files st) [] False fs)" using l by simp
  then have "added = take (MAX_FILES - length (files st))
                  (filter (\<lambda>f. isDocx f \<and> \<not> isDuplicate (files st) f) fs)"
    by (simp add: addFiles_loop_fst)
  then show ?thesis using False l by (simp add: addFiles_def Let_def)
qed

lemma addFiles_length: "length (files st) \<le> MAX_FILES \<Longrightarrow> length (files (addFiles st fs)) \<le> MAX_FILES"
  by (simp add: addFiles_files)

lemma addFiles_status_cases:
  "status (addFiles st fs) = \<lparr>message = [], stype = idle\<rparr> \<or>
   status (addFiles st fs) = \<lparr>message = msg_already_full, stype = error\<rparr> \<or>
   (length (files st) < length (files (addFiles st fs)) \<and>
    status (addFiles st fs) =
      \<lparr>message = msg_limit_partial (length (files (addFiles st fs)) - length (files st)),
       stype = error\<rparr>)"
proof (cases "MAX_FILES \<le> length (files st)")
  case True
  then show ?thesis by (simp add: addFiles_full)
next
  case False
  obtain added lim where l: "addFiles_loop (files st) [] False fs = (added, lim)"
    by (cases "addFiles_loop (files st) [] False fs")
  have "lim \<Longrightarrow> MAX_FILES \<le> length (files st) + length added"
    using addFiles_loop_snd [of "files st" "[]" False fs] l by simp
  then have "lim \<Longrightarrow> 0 < length added" using False by auto
  then show ?thesis using False l by (auto simp add: addFiles_def Let_def)
qed

lemma addFiles_resets: "addFiles st fs = addFiles (st\<lparr>status := s\<rparr>) fs"
  by (simp add: addFiles_def)

lemma addFiles_all_dropped:
  assumes "length (files st) < MAX_FILES"
    and "list_all (\<lambda>f. \<not> isDocx f \<or> isDuplicate (files st) f) fs"
  shows "addFiles st fs = st\<lparr>status := \<lparr>message = [], stype = idle\<rparr>\<rparr>"
  using assms addFiles_loop_none [of "files st" fs "[]" False]
  by (simp add: addFiles_def)

lemma show_nat_hd: "\<exists>d cs. d < 10 \<and> show_nat n = digit_char d # cs"
proof (induction n rule: show_nat.induct)
  case (1 n)
  show ?case
  proof (cases "n < 10")
    case True
    then have "show_nat n = digit_char n # []" by simp
    with True show ?thesis by blast
  next
    case False
    with 1 obtain d cs where "d < 10" "show_nat (n div 10) = digit_char d # cs" by blast
    with False have "show_nat n = digit_char d # (cs @ [digit_char (n mod 10)])"
      by (subst show_nat.simps) simp
    with \<open>d < 10\<close> show ?thesis by blast
  qed
qed

lemma digit_char_not_N: "d < 10 \<Longrightarrow> digit_char d \<noteq> CHR ''N''"
proof -
  assume "d < 10"
  then consider "d = 0" | "d = 1" | "d = 2" | "d = 3" | "d = 4" | "d = 5" | "d = 6" | "d = 7"
    | "d = 8" | "d = 9" by atomize_elim arith
  then show ?thesis by cases (simp_all add: digit_char_def)
qed

lemma msg_partial_distinct:
  "msg_limit_partial k \<noteq> msg_already_full \<and> msg_limit_partial k \<noteq> msg_limit_none"
proof
  show "msg_limit_partial k \<noteq> msg_already_full"
    by (simp add: msg_limit_partial_def msg_already_full_def)
  obtain d cs where d: "d < 10" "show_nat k = digit_char d # cs"
    using show_nat_hd by blast
  then show "msg_limit_partial k \<noteq> msg_limit_none"
    using digit_char_not_N [of d] by (simp add: msg_limit_partial_def msg_limit_none_def)
qed

text \<open>
  C10. \<^verbatim>\<open>addFiles\<close> sets the status to idle before anything else, so its result does
  not depend on the status it started from; the status it leaves is idle, or the error of
  a full batch, or the error that the limit was reached with the number of files added.
  An offer to a batch with room in which every file is dropped (not a document, or a
  duplicate of a batched file) changes nothing but the status, which is idle after it.
\<close>

theorem addFiles_status_reset:
  "addFiles st fs = addFiles (st\<lparr>status := \<lparr>message = [], stype = idle\<rparr>\<rparr>) fs \<and>
   (status (addFiles st fs) = \<lparr>message = [], stype = idle\<rparr> \<or>
    status (addFiles st fs) = \<lparr>message = msg_already_full, stype = error\<rparr> \<or>
    status (addFiles st fs) =
      \<lparr>message = msg_limit_partial (length (files (addFiles st fs)) - length (files st)),
       stype = error\<rparr>) \<and>
   (length (files st) < MAX_FILES \<and> list_all (\<lambda>f. \<not> isDocx f \<or> isDuplicate (files st) f) fs \<longrightarrow>
      addFiles st fs = st\<lparr>status := \<lparr>message = [], stype = idle\<rparr>\<rparr>)"
  using addFiles_resets [of st fs] addFiles_status_cases [of st fs] addFiles_all_dropped [of st fs]
  by blast

theorem addFiles_status_reset_witness:
  "addFiles ((with_files [doc_a])\<lparr>status := \<lparr>message = msg_success, stype = success\<rparr>\<rparr>)
     [notes_txt, doc_a_again] = with_files [doc_a]"
proof -
  let ?st = "(with_files [doc_a])\<lparr>status := \<lparr>message = msg_success, stype = success\<rparr>\<rparr>"
  have room: "length (files ?st) < MAX_FILES"
    by (simp add: with_files_def initial_state_def MAX_FILES_def)
  have dropped: "list_all (\<lambda>f. \<not> isDocx f \<or> isDuplicate (files ?st) f) [notes_txt, doc_a_again]"
    by (simp add: with_files_def initial_state_def isDocx_def isDuplicate_def endsWith_def
        suffix_to_prefix notes_txt_def doc_a_def doc_a_again_def docx_mime_def)
  from addFiles_status_reset [of ?st "[notes_txt, doc_a_again]"] room dropped
  have "addFiles ?st [notes_txt, doc_a_again] = ?st\<lparr>status := \<lparr>message = [], stype = idle\<rparr>\<rparr>"
    by blast
  then show ?thesis
    by (simp add: with_files_def initial_state_def)
qed

text \<open>
  C4, for \<^verbatim>\<open>addFiles\<close> of src/src/App.tsx (the earlier variant has no limit, as
  the last section shows). When every offered file is a document that
  duplicates no batched file, the room left \<open>R = MAX_FILES - length files\<close> is positive
  and more than \<open>R\<close> files are offered, \<^verbatim>\<open>addFiles\<close> appends exactly the first \<open>R\<close>
  of them and leaves the error
  status that the limit was reached with \<open>R\<close> files added. That message differs from the
  one of an offer to a full batch, which adds nothing and changes the status only, and
  from the one that no file was added.
\<close>

theorem addFiles_partial:
  assumes elig: "list_all (\<lambda>f. isDocx f \<and> \<not> isDuplicate (files st) f) fs"
    and room: "0 < MAX_FILES - length (files st)" "MAX_FILES - length (files st) < length fs"
  shows "files (addFiles st fs) = files st @ take (MAX_FILES - length (files st)) fs \<and>
         length (files (addFiles st fs)) = length (files st) + (MAX_FILES - length (files st)) \<and>
         status (addFiles st fs) =
           \<lparr>message = msg_limit_partial (MAX_FILES - length (files st)), stype = error\<rparr> \<and>
         msg_limit_partial (MAX_FILES - length (files st)) \<noteq> msg_already_full \<and>
         msg_limit_partial (MAX_FILES - length (files st)) \<noteq> msg_limit_none \<and>
         (MAX_FILES \<le> length (files full) \<longrightarrow>
            addFiles full offered =
              full\<lparr>status := \<lparr>message = msg_already_full, stype = error\<rparr>\<rparr>)"
proof -
  have flt: "filter (\<lambda>f. isDocx f \<and> \<not> isDuplicate (files st) f) fs = fs"
    using elig by (simp add: list_all_iff)
  have fl: "files (addFiles st fs) = files st @ take (MAX_FILES - length (files st)) fs"
    by (simp add: addFiles_files flt)
  have len: "length (files (addFiles st fs)) = length (files st) + (MAX_FILES - length (files st))"
    using room by (simp add: fl)
  obtain added lim where l: "addFiles_loop (files st) [] False fs = (added, lim)"
    by (cases "addFiles_loop (files st) [] False fs")
  have added: "added = take (MAX_FILES - length (files st)) fs"
    using addFiles_loop_fst [of "files st" "[]" False fs] l flt by simp
  have lim: "lim"
    using addFiles_loop_snd_all [OF elig, of "[]" False] l room by simp
  have ne: "fs \<noteq> []" using room by auto
  have "status (addFiles st fs) =
           \<lparr>message = msg_limit_partial (MAX_FILES - length (files st)), stype = error\<rparr>"
    using room l lim added ne by (simp add: addFiles_def Let_def)
  then show ?thesis using fl len msg_partial_distinct addFiles_full by simp
qed

lemma isDocx_numbered: "isDocx (numbered_docx i)"
  by (simp add: isDocx_def numbered_docx_def)

theorem addFiles_partial_witness:
  "files (addFiles initial_state (map numbered_docx [0..<31])) = map numbered_docx [0..<30] \<and>
   length (files (addFiles initial_state (map numbered_docx [0..<31]))) = 30 \<and>
   status (addFiles initial_state (map numbered_docx [0..<31])) =
     \<lparr>message = msg_limit_partial 30, stype = error\<rparr> \<and>
   msg_limit_partial 30 \<noteq> msg_already_full"
proof -
  have elig: "list_all (\<lambda>f. isDocx f \<and> \<not> isDuplicate (files initial_state) f)
      (map numbered_docx [0..<31])"
    by (simp add: list_all_iff isDocx_numbered isDuplicate_def initial_state_def)
  have room: "0 < MAX_FILES - length (files initial_state)"
    "MAX_FILES - length (files initial_state) < length (map numbered_docx [0..<31])"
    by (simp_all add: MAX_FILES_def initial_state_def)
  from addFiles_partial [OF elig room] show ?thesis
    by (simp add: MAX_FILES_def initial_state_def take_map)
qed

lemma isDuplicate_iff: "isDuplicate fs f \<longleftrightarrow> file_key f \<in> file_key ` set fs"
proof
  assume "isDuplicate fs f"
  then obtain g where "g \<in> set fs" "file_key g = file_key f"
    by (auto simp: isDuplicate_def list_ex_iff file_key_def)
  then show "file_key f \<in> file_key ` set fs"
    by (metis imageI)
next
  assume "file_key f \<in> file_key ` set fs"
  then show "isDuplicate fs f"
    by (auto simp: isDuplicate_def list_ex_iff file_key_def)
qed

lemma addFiles_unique_offer:
  assumes "batch_unique (files st)" "batch_unique fs"
  shows "batch_unique (files (addFiles st fs))"
proof -
  let ?new = "take (MAX_FILES - length (files st))
      (filter (\<lambda>f. isDocx f \<and> \<not> isDuplicate (files st) f) fs)"
  have d1: "distinct (map file_key ?new)"
    using assms(2) unfolding batch_unique_def
    by (simp add: take_map [symmetric] distinct_map_filter)
  have "set ?new \<subseteq> {f \<in> set fs. \<not> isDuplicate (files st) f}"
    by (auto dest: in_set_takeD)
  then have d2: "file_key ` set (files st) \<inter> file_key ` set ?new = {}"
    by (auto simp: isDuplicate_iff)
  from assms(1) d1 d2 show ?thesis
    unfolding batch_unique_def addFiles_files by simp
qed

text \<open>
  C1. The batch stays within \<^verbatim>\<open>MAX_FILES\<close> (\<open>addFiles_length\<close>, and
  \<open>ui_reachable_bounds\<close> for every sequence of events), and an offer whose files have
  distinct identities keeps the batch free of duplicates (\<open>addFiles_unique_offer\<close>).
  The duplicate test of \<^verbatim>\<open>addFiles\<close> reads the batch only, not the files staged in
  the same call: two files of one name and size offered together to the empty batch are
  both added, and the batch holds two candidates of one identity.
\<close>

theorem duplicate_within_offer:
  "files (addFiles initial_state [doc_a, doc_a_again]) = [doc_a, doc_a_again] \<and>
   file_key doc_a = file_key doc_a_again \<and>
   \<not> batch_unique (files (addFiles initial_state [doc_a, doc_a_again]))"
  by code_simp

section \<open>Submission\<close>

lemma handleSubmit_nonempty:
  "files st \<noteq> [] \<Longrightarrow>
   handleSubmit API_URL st p =
     (fst (handleSubmit_resume (st\<lparr>isLoading := True, status := \<lparr>message = [], stype = idle\<rparr>\<rparr>) p),
      Fetch API_URL (formData (files st)) #
      snd (handleSubmit_resume (st\<lparr>isLoading := True, status := \<lparr>message = [], stype = idle\<rparr>\<rparr>) p))"
  by (simp add: handleSubmit_def handleSubmit_start_def split_def Let_def)

lemma handleSubmit_success:
  assumes "files st \<noteq> []" "ok r" "body r = Resolves b"
  shows "handleSubmit API_URL st (Resolves r) =
    (st\<lparr>files := [], isLoading := False, status := \<lparr>message = [], stype = idle\<rparr>\<rparr>,
     [Fetch API_URL (formData (files st)), CreateObjectURL b,
      AppendAnchor (filename (content_disposition r)),
      ClickAnchor (filename (content_disposition r)), RevokeObjectURL, RemoveAnchor])"
  using assms
  by (simp add: handleSubmit_def handleSubmit_start_def handleSubmit_resume_def submit_try_def
      clearAll_def Let_def)

text \<open>
  C3. With an empty batch \<^verbatim>\<open>handleSubmit\<close> sets the error status with the message
  that a file must be selected first, and does nothing else: it has no effect (no
  \<^verbatim>\<open>fetch\<close>), leaves the rest of the state, \<^verbatim>\<open>isLoading\<close> included, as it was, and
  no request is pending after it.
\<close>

theorem handleSubmit_empty:
  "files st = [] \<Longrightarrow>
   handleSubmit API_URL st p =
     (st\<lparr>status := \<lparr>message = msg_empty_submission, stype = error\<rparr>\<rparr>, []) \<and>
   handleSubmit_start API_URL st =
     (st\<lparr>status := \<lparr>message = msg_empty_submission, stype = error\<rparr>\<rparr>, [], False)"
  by (simp add: handleSubmit_def handleSubmit_start_def)

theorem handleSubmit_empty_witness:
  "files initial_state = [] \<and>
   handleSubmit api_url initial_state (Resolves out_zip_response) =
     (\<lparr>files = [], isLoading = False,
       status = \<lparr>message = msg_empty_submission, stype = error\<rparr>, isDragging = False\<rparr>, [])"
  using handleSubmit_empty [of initial_state api_url "Resolves out_zip_response"]
  by (simp add: initial_state_def)

subsection \<open>The file name of the download\<close>

lemma lazy_group_takeWhile:
  "lazy_group acc s =
     (if length (takeWhile (\<lambda>x. x \<noteq> dquote) s) < length s \<and>
         list_all dot_char (takeWhile (\<lambda>x. x \<noteq> dquote) s)
      then Some (acc @ takeWhile (\<lambda>x. x \<noteq> dquote) s) else None)"
  by (induction s arbitrary: acc) auto

lemma takeWhile_stop: "\<not> P y \<Longrightarrow> takeWhile P (xs @ y # ys) = takeWhile P xs"
  by (induction xs) auto

lemma takeWhile_then_dquote:
  "length (takeWhile (\<lambda>x. x \<noteq> dquote) s) < length s \<Longrightarrow>
   prefix (takeWhile (\<lambda>x. x \<noteq> dquote) s @ [dquote]) s"
proof (induction s)
  case Nil
  then show ?case by simp
next
  case (Cons a s)
  then show ?case by (cases "a = dquote") auto
qed

lemma match_at_Some:
  assumes "match_at s = Some v"
  shows "v \<noteq> [] \<and> list_all dot_char v \<and> prefix (filename_key @ v @ [dquote]) s \<and>
         (\<forall>w. w \<noteq> [] \<and> prefix (filename_key @ w @ [dquote]) s \<longrightarrow> length v \<le> length w)"
proof -
  from assms have pk: "prefix filename_key s"
    by (auto simp: match_at_def split: if_splits)
  then obtain t where s: "s = filename_key @ t"
    by (auto simp: prefix_def)
  from assms s obtain c cs where t: "t = c # cs" and c: "dot_char c"
    and lg: "lazy_group [c] cs = Some v"
    by (auto simp: match_at_def split: if_splits list.splits)
  let ?w = "takeWhile (\<lambda>x. x \<noteq> dquote) cs"
  from lg have len: "length ?w < length cs" and dots: "list_all dot_char ?w" and v: "v = c # ?w"
    by (auto simp: lazy_group_takeWhile split: if_splits)
  have p: "prefix (?w @ [dquote]) cs"
    using len by (rule takeWhile_then_dquote)
  have 1: "v \<noteq> []" using v by simp
  have 2: "list_all dot_char v" using v c dots by simp
  have 3: "prefix (filename_key @ v @ [dquote]) s"
    using p by (simp add: s t v)
  have 4: "length v \<le> length w" if w: "w \<noteq> []" "prefix (filename_key @ w @ [dquote]) s" for w
  proof -
    from w(2) have "prefix (w @ [dquote]) (c # cs)"
      by (simp add: s t)
    with w(1) obtain w' where w': "w = c # w'" and pw: "prefix (w' @ [dquote]) cs"
      by (cases w) auto
    from pw obtain rest where "cs = w' @ dquote # rest"
      by (auto simp: prefix_def)
    then have "?w = takeWhile (\<lambda>x. x \<noteq> dquote) w'"
      by (simp add: takeWhile_stop)
    then have "length ?w \<le> length w'"
      by (simp add: length_takeWhile_le)
    then show ?thesis by (simp add: v w')
  qed
  from 1 2 3 4 show ?thesis by blast
qed

lemma match_at_None:
  assumes "match_at s = None" and w: "w \<noteq> []" "list_all dot_char w"
  shows "\<not> prefix (filename_key @ w @ [dquote]) s"
proof
  assume p: "prefix (filename_key @ w @ [dquote]) s"
  then obtain rest where s: "s = filename_key @ w @ dquote # rest"
    by (auto simp: prefix_def)
  from w obtain c w' where w': "w = c # w'" by (cases w) auto
  have pk: "prefix filename_key s" by (simp add: s)
  have dr: "drop (length filename_key) s = c # w' @ dquote # rest"
    by (simp add: s w')
  from w w' have c: "dot_char c" and dots: "list_all dot_char w'" by simp_all
  let ?cs = "w' @ dquote # rest"
  have tw: "takeWhile (\<lambda>x. x \<noteq> dquote) ?cs = takeWhile (\<lambda>x. x \<noteq> dquote) w'"
    by (simp add: takeWhile_stop)
  have "length (takeWhile (\<lambda>x. x \<noteq> dquote) w') \<le> length w'"
    by (rule length_takeWhile_le)
  then have len: "length (takeWhile (\<lambda>x. x \<noteq> dquote) ?cs) < length ?cs"
    unfolding tw by simp
  have "set (takeWhile (\<lambda>x. x \<noteq> dquote) w') \<subseteq> set w'"
    by (auto dest: set_takeWhileD)
  with dots have "list_all dot_char (takeWhile (\<lambda>x. x \<noteq> dquote) ?cs)"
    unfolding tw by (auto simp: list_all_iff)
  with len have "lazy_group [c] ?cs \<noteq> None"
    by (simp add: lazy_group_takeWhile)
  with pk dr c have "match_at s \<noteq> None"
    by (simp add: match_at_def)
  with assms(1) show False by simp
qed

lemma match_at_Nil: "match_at [] = None"
  by (simp add: match_at_def filename_key_def)

lemma filenameMatch_Some:
  "filenameMatch h = Some v \<Longrightarrow>
   \<exists>i. match_at (drop i h) = Some v \<and> (\<forall>j<i. match_at (drop j h) = None)"
proof (induction h)
  case Nil
  then show ?case by (simp add: match_at_Nil)
next
  case (Cons c cs)
  show ?case
  proof (cases "match_at (c # cs)")
    case (Some u)
    with Cons.prems have "match_at (drop 0 (c # cs)) = Some v" by simp
    then show ?thesis by blast
  next
    case None
    with Cons.prems have "filenameMatch cs = Some v" by simp
    from Cons.IH [OF this] obtain i where i: "match_at (drop i cs) = Some v"
      "\<forall>j<i. match_at (drop j cs) = None" by blast
    have "match_at (drop (Suc i) (c # cs)) = Some v" using i(1) by simp
    moreover have "\<forall>j<Suc i. match_at (drop j (c # cs)) = None"
    proof (intro allI impI)
      fix j assume "j < Suc i"
      then show "match_at (drop j (c # cs)) = None"
        using None i(2) by (cases j) auto
    qed
    ultimately show ?thesis by blast
  qed
qed

lemma filenameMatch_None:
  "filenameMatch h = None \<Longrightarrow> match_at (drop i h) = None"
proof (induction h arbitrary: i)
  case Nil
  then show ?case by (simp add: match_at_Nil)
next
  case (Cons c cs)
  then have n: "match_at (c # cs) = None" "filenameMatch cs = None"
    by (auto split: option.splits)
  show ?case
    using n(1) Cons.IH [OF n(2)] by (cases i) auto
qed

lemma filenameMatch_captures:
  assumes "filenameMatch h = Some v"
  shows "captures h v"
proof -
  from filenameMatch_Some [OF assms] obtain i where i: "match_at (drop i h) = Some v"
    "\<forall>j<i. match_at (drop j h) = None" by blast
  note m = match_at_Some [OF i(1)]
  have here: "pattern_at h i v" using m by (simp add: pattern_at_def)
  have least: "i < j \<or> (i = j \<and> length v \<le> length w)" if p: "pattern_at h j w" for j w
  proof -
    from p have w: "w \<noteq> []" "list_all dot_char w" "prefix (filename_key @ w @ [dquote]) (drop j h)"
      by (simp_all add: pattern_at_def)
    have "\<not> j < i"
    proof
      assume "j < i"
      with i(2) have "match_at (drop j h) = None" by simp
      from match_at_None [OF this w(1) w(2)] w(3) show False by simp
    qed
    moreover have "length v \<le> length w" if "j = i"
      using m w that by blast
    ultimately show ?thesis by force
  qed
  from here least show ?thesis unfolding captures_def by blast
qed

lemma filenameMatch_no_pattern:
  assumes "filenameMatch h = None"
  shows "\<not> pattern_at h i w"
proof
  assume "pattern_at h i w"
  then have w: "w \<noteq> []" "list_all dot_char w" "prefix (filename_key @ w @ [dquote]) (drop i h)"
    by (simp_all add: pattern_at_def)
  from match_at_None [OF filenameMatch_None [OF assms] w(1) w(2)] w(3) show False by simp
qed

lemma captures_unique:
  assumes "captures h v" "captures h w"
  shows "v = w"
proof -
  from assms(1) obtain i where i: "pattern_at h i v"
    "\<And>j u. pattern_at h j u \<Longrightarrow> i < j \<or> (i = j \<and> length v \<le> length u)"
    unfolding captures_def by blast
  from assms(2) obtain k where k: "pattern_at h k w"
    "\<And>j u. pattern_at h j u \<Longrightarrow> k < j \<or> (k = j \<and> length w \<le> length u)"
    unfolding captures_def by blast
  from i(2) [OF k(1)] k(2) [OF i(1)] have eq: "i = k" "length v = length w"
    by auto
  from i(1) obtain r1 where r1: "drop i h = filename_key @ v @ [dquote] @ r1"
    by (auto simp: pattern_at_def prefix_def)
  from k(1) eq obtain r2 where r2: "drop i h = filename_key @ w @ [dquote] @ r2"
    by (auto simp: pattern_at_def prefix_def)
  from r1 r2 have "v @ [dquote] @ r1 = w @ [dquote] @ r2" by simp
  with eq(2) show ?thesis by simp
qed

lemma filename_cases:
  "(case cd of
      None \<Rightarrow> filename cd = default_filename
    | Some h \<Rightarrow> if (\<exists>i v. pattern_at h i v) then captures h (filename cd)
               else filename cd = default_filename)"
proof (cases cd)
  case None
  then show ?thesis by (simp add: filename_def)
next
  case (Some h)
  show ?thesis
  proof (cases "filenameMatch h")
    case None
    then have "\<not> (\<exists>i v. pattern_at h i v)"
      using filenameMatch_no_pattern by blast
    with None Some show ?thesis by (auto simp add: filename_def)
  next
    case (Some v)
    then have c: "captures h v" by (rule filenameMatch_captures)
    then have ex: "\<exists>i v. pattern_at h i v" unfolding captures_def by blast
    have "h \<noteq> []" using Some by (auto simp: match_at_Nil)
    with Some \<open>cd = Some h\<close> c ex show ?thesis by (simp add: filename_def)
  qed
qed

text \<open>
  C8. For a response that is ok and whose body is read, the anchor is appended and
  clicked with one \<^verbatim>\<open>download\<close> name. Without the header that name is
  \<^verbatim>\<open>converted-files.zip\<close>; with the header it is what the pattern captures (the group
  of the leftmost match, the shortest there, which \<open>captures_unique\<close> shows to be one
  value) when the pattern matches somewhere, and \<^verbatim>\<open>converted-files.zip\<close> when it
  matches nowhere.
\<close>

theorem saved_filename:
  assumes "files st \<noteq> []" "ok r" "body r = Resolves b"
  shows "\<exists>fn. snd (handleSubmit API_URL st (Resolves r)) =
           [Fetch API_URL (formData (files st)), CreateObjectURL b, AppendAnchor fn,
            ClickAnchor fn, RevokeObjectURL, RemoveAnchor] \<and>
         (case content_disposition r of
            None \<Rightarrow> fn = ''converted-files.zip''
          | Some h \<Rightarrow> if (\<exists>i v. pattern_at h i v) then captures h fn
                     else fn = ''converted-files.zip'')"
proof -
  have "case content_disposition r of
          None \<Rightarrow> filename (content_disposition r) = ''converted-files.zip''
        | Some h \<Rightarrow> if (\<exists>i v. pattern_at h i v) then captures h (filename (content_disposition r))
                   else filename (content_disposition r) = ''converted-files.zip''"
    using filename_cases [of "content_disposition r"] unfolding default_filename_def .
  with handleSubmit_success [OF assms, of API_URL] show ?thesis
    by (intro exI [of _ "filename (content_disposition r)"]) simp
qed

theorem saved_filename_witness:
  "files (with_files [doc_a]) \<noteq> [] \<and> ok out_zip_response \<and>
   body out_zip_response = Resolves ''PK'' \<and>
   (\<exists>fn. snd (handleSubmit api_url (with_files [doc_a]) (Resolves out_zip_response)) =
           [Fetch api_url (formData [doc_a]), CreateObjectURL ''PK'', AppendAnchor fn,
            ClickAnchor fn, RevokeObjectURL, RemoveAnchor] \<and>
         captures (''attachment; filename='' @ [dquote] @ ''out.zip'' @ [dquote]) fn)"
proof -
  have ne: "files (with_files [doc_a]) \<noteq> []"
    by (simp add: with_files_def initial_state_def)
  have k: "ok out_zip_response"
    by (simp add: ok_def out_zip_response_def)
  have b: "body out_zip_response = Resolves ''PK''"
    by (simp add: out_zip_response_def)
  have pat: "pattern_at (''attachment; filename='' @ [dquote] @ ''out.zip'' @ [dquote]) 12 ''out.zip''"
    by (simp add: pattern_at_def filename_key_def dot_char_def)
  then have ex: "\<exists>i v. pattern_at (''attachment; filename='' @ [dquote] @ ''out.zip'' @ [dquote]) i v"
    by blast
  have fl: "files (with_files [doc_a]) = [doc_a]"
    by (simp add: with_files_def initial_state_def)
  from saved_filename [OF ne k b, of api_url] ex ne k b show ?thesis
    by (simp add: out_zip_response_def fl)
qed

text \<open>
  C2. Ten documents are submitted and the server answers 200 with
  \<^verbatim>\<open>Content-Disposition: attachment; filename="out.zip"\<close> and a body. The request is
  sent, the download is triggered with the name \<^verbatim>\<open>out.zip\<close> and the batch is empty
  afterwards; but \<^verbatim>\<open>clearAll()\<close>, called right after \<^verbatim>\<open>setStatus\<close> with the success
  message, sets the status again, so the status the handler leaves is idle with no
  message, not success.
\<close>

theorem success_status_cleared:
  "handleSubmit api_url (with_files (map numbered_docx [0..<10])) (Resolves out_zip_response) =
     (\<lparr>files = [], isLoading = False, status = \<lparr>message = [], stype = idle\<rparr>,
       isDragging = False\<rparr>,
      [Fetch api_url (formData (map numbered_docx [0..<10])), CreateObjectURL ''PK'',
       AppendAnchor ''out.zip'', ClickAnchor ''out.zip'', RevokeObjectURL, RemoveAnchor]) \<and>
   stype (status (fst (handleSubmit api_url (with_files (map numbered_docx [0..<10]))
     (Resolves out_zip_response)))) \<noteq> success"
  by code_simp

subsection \<open>Failed transfers\<close>

lemma transfer_fails_thrown:
  "transfer_fails p \<longleftrightarrow> snd (snd (submit_try st p)) \<noteq> None"
  by (auto simp: transfer_fails_def submit_try_def Let_def split: promise.splits)

lemma submit_try_thrown_state:
  "snd (snd (submit_try st p)) = Some m \<Longrightarrow> fst (submit_try st p) = st"
  by (auto simp: submit_try_def Let_def split: promise.splits if_splits)

lemma submit_catch_state:
  "fst (submit_catch st m) = st\<lparr>status := status (fst (submit_catch st m))\<rparr> \<and>
   stype (status (fst (submit_catch st m))) = error \<and>
   message (status (fst (submit_catch st m))) \<in> {msg_network, msg_server, msg_unexpected}"
  by (simp add: submit_catch_def Let_def)

lemma handleSubmit_resume_failed:
  assumes "transfer_fails p"
  shows "fst (handleSubmit_resume st p) =
           st\<lparr>isLoading := False, status := status (fst (handleSubmit_resume st p))\<rparr> \<and>
         stype (status (fst (handleSubmit_resume st p))) = error \<and>
         message (status (fst (handleSubmit_resume st p))) \<in> {msg_network, msg_server, msg_unexpected}"
proof -
  from assms obtain m where m: "snd (snd (submit_try st p)) = Some m"
    using transfer_fails_thrown [of p st] by auto
  then have st: "fst (submit_try st p) = st" by (rule submit_try_thrown_state)
  obtain fx where t: "submit_try st p = (st, fx, Some m)"
    using m st by (cases "submit_try st p") auto
  obtain st2 fx2 where c: "submit_catch st m = (st2, fx2)"
    by (cases "submit_catch st m")
  from submit_catch_state [of st m] c have
    "st2 = st\<lparr>status := status st2\<rparr>" "stype (status st2) = error"
    "message (status st2) \<in> {msg_network, msg_server, msg_unexpected}" by simp_all
  moreover have "fst (handleSubmit_resume st p) = st2\<lparr>isLoading := False\<rparr>"
    by (simp add: handleSubmit_resume_def t c)
  ultimately show ?thesis
    by (metis (no_types, lifting) app_state.select_convs(3) app_state.surjective
        app_state.update_convs(2) app_state.update_convs(3))
qed

text \<open>
  C6. When the transfer fails (\<^verbatim>\<open>fetch\<close> rejects, the response is not ok, or reading
  the body rejects), the handler leaves the batch as it found it, the status an error
  and \<^verbatim>\<open>isLoading\<close> false. This holds from the state in which the handler resumes,
  whatever it is, and so for a whole run from a non-empty batch; after such a run the
  convert button is enabled, and a new submission sends the same files.
\<close>

theorem failed_transfer_keeps_batch:
  assumes "transfer_fails p"
  shows "files (fst (handleSubmit_resume st p)) = files st \<and>
         stype (status (fst (handleSubmit_resume st p))) = error \<and>
         \<not> isLoading (fst (handleSubmit_resume st p)) \<and>
         (files st \<noteq> [] \<longrightarrow>
            files (fst (handleSubmit API_URL st p)) = files st \<and>
            stype (status (fst (handleSubmit API_URL st p))) = error \<and>
            \<not> isLoading (fst (handleSubmit API_URL st p)) \<and>
            enabled \<lparr>app = fst (handleSubmit API_URL st p), pending = 0, effects = fx\<rparr> ConvertClick \<and>
            fst (snd (handleSubmit_start API_URL (fst (handleSubmit API_URL st p)))) =
              [Fetch API_URL (formData (files st))])"
proof -
  have r: "files (fst (handleSubmit_resume s p)) = files s \<and>
      stype (status (fst (handleSubmit_resume s p))) = error \<and>
      \<not> isLoading (fst (handleSubmit_resume s p))" for s
  proof -
    from handleSubmit_resume_failed [OF assms, of s]
    have eq: "fst (handleSubmit_resume s p) =
        s\<lparr>isLoading := False, status := status (fst (handleSubmit_resume s p))\<rparr>"
      and er: "stype (status (fst (handleSubmit_resume s p))) = error" by simp_all
    have "files (fst (handleSubmit_resume s p)) = files s"
      by (subst eq) simp
    moreover have "\<not> isLoading (fst (handleSubmit_resume s p))"
      by (subst eq) simp
    ultimately show ?thesis using er by simp
  qed
  show ?thesis
  proof (intro conjI impI)
    assume ne: "files st \<noteq> []"
    let ?s = "st\<lparr>isLoading := True, status := \<lparr>message = [], stype = idle\<rparr>\<rparr>"
    have f: "fst (handleSubmit API_URL st p) = fst (handleSubmit_resume ?s p)"
      using ne by (simp add: handleSubmit_nonempty)
    show fl: "files (fst (handleSubmit API_URL st p)) = files st"
      using r [of ?s] by (simp add: f)
    show "stype (status (fst (handleSubmit API_URL st p))) = error"
      using r [of ?s] by (simp add: f)
    show nl: "\<not> isLoading (fst (handleSubmit API_URL st p))"
      using r [of ?s] by (simp add: f)
    show "enabled \<lparr>app = fst (handleSubmit API_URL st p), pending = 0, effects = fx\<rparr> ConvertClick"
      using fl nl ne by (simp add: enabled_def)
    show "fst (snd (handleSubmit_start API_URL (fst (handleSubmit API_URL st p)))) =
        [Fetch API_URL (formData (files st))]"
      using fl ne by (simp add: handleSubmit_start_def)
  qed (simp_all add: r)
qed

theorem failed_transfer_keeps_batch_witness:
  "transfer_fails (Rejects ''Failed to fetch'') \<and>
   handleSubmit api_url (with_files [doc_a, doc_b]) (Rejects ''Failed to fetch'') =
     (\<lparr>files = [doc_a, doc_b], isLoading = False,
       status = \<lparr>message = msg_network, stype = error\<rparr>, isDragging = False\<rparr>,
      [Fetch api_url (formData [doc_a, doc_b]), ConsoleError log_conversion ''Failed to fetch''])"
  using failed_transfer_keeps_batch [of "Rejects ''Failed to fetch''" "with_files [doc_a, doc_b]" api_url "[]"]
  by (simp add: transfer_fails_def handleSubmit_def handleSubmit_start_def
      handleSubmit_resume_def submit_try_def submit_catch_def with_files_def initial_state_def)

lemma server_error_not_network: "\<not> includes_str ''server_error'' ''Failed to fetch''"
  by simp

text \<open>
  C7, for \<^verbatim>\<open>handleSubmit\<close> of src/src/App.tsx (the earlier variant shows the text of
  the body, as the last section shows). For a response that is not ok,
  whatever text its body carries, the status is the error with the one message
  \<open>msg_server\<close>, and the whole state after the handler is the same for any two texts.
  The text reaches \<^verbatim>\<open>console.error\<close> only.
\<close>

theorem server_error_message_generic:
  assumes "files st \<noteq> []" "\<not> ok r"
  shows "status (fst (handleSubmit API_URL st (Resolves (r\<lparr>body := Resolves t\<rparr>)))) =
           \<lparr>message = msg_server, stype = error\<rparr> \<and>
         fst (handleSubmit API_URL st (Resolves (r\<lparr>body := Resolves t\<rparr>))) =
           fst (handleSubmit API_URL st (Resolves (r\<lparr>body := Resolves t'\<rparr>))) \<and>
         snd (handleSubmit API_URL st (Resolves (r\<lparr>body := Resolves t\<rparr>))) =
           [Fetch API_URL (formData (files st)), ConsoleError ''Erro do servidor:'' t,
            ConsoleError log_conversion ''server_error'']"
proof -
  have nok: "\<not> ok (r\<lparr>body := Resolves u\<rparr>)" for u
    using assms(2) by (simp add: ok_def)
  have run: "handleSubmit API_URL st (Resolves (r\<lparr>body := Resolves u\<rparr>)) =
      (st\<lparr>isLoading := False, status := \<lparr>message = msg_server, stype = error\<rparr>\<rparr>,
       [Fetch API_URL (formData (files st)), ConsoleError ''Erro do servidor:'' u,
        ConsoleError log_conversion ''server_error''])" for u
    using assms(1) nok [of u] server_error_not_network
    by (simp add: handleSubmit_nonempty handleSubmit_resume_def submit_try_def submit_catch_def)
  show ?thesis by (simp add: run)
qed

theorem server_error_message_generic_witness:
  "status (fst (handleSubmit api_url (with_files [doc_a])
       (Resolves (server_error_response ''conversion failed: corrupt zip'')))) =
     \<lparr>message = msg_server, stype = error\<rparr> \<and>
   fst (handleSubmit api_url (with_files [doc_a])
       (Resolves (server_error_response ''conversion failed: corrupt zip''))) =
   fst (handleSubmit api_url (with_files [doc_a])
       (Resolves (server_error_response ''out of memory'')))"
proof -
  have ne: "files (with_files [doc_a]) \<noteq> []"
    by (simp add: with_files_def initial_state_def)
  have nok: "\<not> ok (server_error_response [])"
    by (simp add: ok_def server_error_response_def)
  have upd: "(server_error_response [])\<lparr>body := Resolves u\<rparr> = server_error_response u" for u
    by (simp add: server_error_response_def)
  from server_error_message_generic [OF ne nok, of api_url "''conversion failed: corrupt zip''"
      "''out of memory''"]
  show ?thesis unfolding upd by blast
qed

section \<open>The interface while a request is pending\<close>

lemma addFiles_isLoading: "isLoading (addFiles st fs) = isLoading st"
  by (simp add: addFiles_def Let_def split_def)

lemma removeFile_length: "length (files (removeFile st index)) \<le> length (files st)"
proof -
  have "length (filter (\<lambda>(f, i). int i \<noteq> index) (zip (files st) [0..<length (files st)]))
      \<le> length (zip (files st) [0..<length (files st)])"
    by (rule length_filter_le)
  then show ?thesis by (simp add: removeFile_def)
qed

lemma handleSubmit_resume_files:
  "files (fst (handleSubmit_resume st p)) = files st \<or> files (fst (handleSubmit_resume st p)) = []"
  by (auto simp: handleSubmit_resume_def submit_try_def submit_catch_def clearAll_def Let_def
      split: promise.splits)

lemma handleSubmit_resume_isLoading: "\<not> isLoading (fst (handleSubmit_resume st p))"
  by (simp add: handleSubmit_resume_def split_def Let_def)

lemma dispatch_inv:
  assumes "ui_inv u" "enabled u ev"
  shows "ui_inv (dispatch API_URL u ev)"
proof -
  from assms(1) have p: "pending u = (if isLoading (app u) then 1 else 0)"
    and l: "length (files (app u)) \<le> MAX_FILES"
    by (simp_all add: ui_inv_def)
  show ?thesis
  proof (cases ev)
    case (Drop fs)
    have "length (files (addFiles ((app u)\<lparr>isDragging := False\<rparr>) fs)) \<le> MAX_FILES"
      using l by (intro addFiles_length) simp
    then show ?thesis
      using p by (simp add: Drop dispatch_def ui_inv_def handleDrop_def addFiles_isLoading)
  next
    case DragOver
    then show ?thesis using p l by (simp add: dispatch_def ui_inv_def handleDragOver_def)
  next
    case DragLeave
    then show ?thesis using p l by (simp add: dispatch_def ui_inv_def handleDragLeave_def)
  next
    case (FileChange fs)
    then show ?thesis
      using p l addFiles_length [of "app u"]
      by (cases fs) (simp_all add: dispatch_def ui_inv_def handleFileChange_def addFiles_isLoading)
  next
    case (RemoveClick i)
    have "isLoading (removeFile (app u) (int i)) = isLoading (app u)"
      by (simp add: removeFile_def)
    then show ?thesis
      using p l removeFile_length [of "app u" "int i"]
      by (simp add: RemoveClick dispatch_def ui_inv_def)
  next
    case ConvertClick
    with assms(2) have "\<not> isLoading (app u)" "files (app u) \<noteq> []"
      by (simp_all add: enabled_def)
    then show ?thesis
      using p l by (simp add: ConvertClick dispatch_def ui_inv_def handleSubmit_start_def)
  next
    case ClearClick
    then show ?thesis using p l by (simp add: dispatch_def ui_inv_def clearAll_def)
  next
    case (Settled r)
    with assms(2) have "0 < pending u" by (simp add: enabled_def)
    with p have one: "pending u = 1" by (simp split: if_splits)
    have "length (files (fst (handleSubmit_resume (app u) r))) \<le> MAX_FILES"
      using handleSubmit_resume_files [of "app u" r] l by auto
    then show ?thesis
      using one handleSubmit_resume_isLoading [of "app u" r]
      by (simp add: Settled dispatch_def ui_inv_def split_def Let_def)
  qed
qed

lemma ui_step_inv: "ui_inv u \<Longrightarrow> ui_inv (ui_step API_URL u ev)"
  by (simp add: ui_step_def dispatch_inv)

lemma ui_run_inv: "ui_inv u \<Longrightarrow> ui_inv (ui_run API_URL u evs)"
proof (induction evs arbitrary: u)
  case Nil
  then show ?case by (simp add: ui_run_def)
next
  case (Cons ev evs)
  from Cons.IH [OF ui_step_inv [OF Cons.prems, of API_URL ev]] show ?case
    by (simp add: ui_run_def)
qed

lemma ui_reachable_bounds:
  "pending (ui_run API_URL initial_ui evs) \<le> 1 \<and>
   length (files (app (ui_run API_URL initial_ui evs))) \<le> MAX_FILES"
proof -
  have "ui_inv initial_ui"
    by (simp add: ui_inv_def initial_ui_def initial_state_def)
  from ui_run_inv [OF this, of API_URL evs] show ?thesis
    by (simp add: ui_inv_def split: if_splits)
qed

lemma loading_gates:
  "isLoading (app u) \<Longrightarrow>
   ui_step API_URL u (FileChange fs) = u \<and> ui_step API_URL u (RemoveClick i) = u \<and>
   ui_step API_URL u ClearClick = u \<and> ui_step API_URL u ConvertClick = u"
  by (simp add: ui_step_def enabled_def)

lemma loading_drop_not_gated:
  "ui_step API_URL u (Drop fs) = u\<lparr>app := addFiles ((app u)\<lparr>isDragging := False\<rparr>) fs\<rparr>"
  by (simp add: ui_step_def enabled_def dispatch_def handleDrop_def)

text \<open>
  C9. While \<^verbatim>\<open>isLoading\<close> the file input, the remove buttons, the clear button and
  the convert button are disabled (\<open>loading_gates\<close>), and at most one request is pending
  after any events (\<open>ui_reachable_bounds\<close>). The drop zone is not guarded: after a file
  is dropped and the convert button clicked, the request is pending, and a second drop
  adds its file to the batch.
\<close>

theorem drop_while_loading:
  "isLoading (app (ui_run api_url initial_ui [Drop [doc_a], ConvertClick])) \<and>
   pending (ui_run api_url initial_ui [Drop [doc_a], ConvertClick]) = 1 \<and>
   files (app (ui_run api_url initial_ui [Drop [doc_a], ConvertClick])) = [doc_a] \<and>
   files (app (ui_run api_url initial_ui [Drop [doc_a], ConvertClick, Drop [doc_b]])) = [doc_a, doc_b]"
  by code_simp

section \<open>The earlier variant\<close>

lemma part000_no_limit:
  "length (files (addFiles_part000 initial_state (map numbered_docx [0..<31]))) = 31"
  by (simp add: addFiles_part000_def initial_state_def isDuplicate_def isDocx_numbered)

lemma part000_shows_server_text:
  assumes "\<not> ok r" "t \<noteq> []" "\<not> includes_str t ''Failed to fetch''"
  shows "status (fst (handleSubmit_resume_part000 st (Resolves (r\<lparr>body := Resolves t\<rparr>)))) =
           \<lparr>message = t, stype = error\<rparr>"
proof -
  have "\<not> ok (r\<lparr>body := Resolves t\<rparr>)"
    using assms(1) by (simp add: ok_def)
  then show ?thesis
    using assms(2,3)
    by (simp add: handleSubmit_resume_part000_def submit_try_part000_def submit_catch_part000_def)
qed

text \<open>
  \<^verbatim>\<open>addFiles\<close> of the earlier variant, offered 31 documents on the empty batch, where
  the room under \<^verbatim>\<open>MAX_FILES\<close> is 30: all 31 are appended, not the first 30, and the
  status is idle, not the message that the limit was reached.
\<close>

theorem part000_adds_beyond_room:
  "MAX_FILES - length (files initial_state) = 30 \<and>
   files (addFiles_part000 initial_state (map numbered_docx [0..<31])) =
     map numbered_docx [0..<31] \<and>
   length (files (addFiles_part000 initial_state (map numbered_docx [0..<31]))) = 31 \<and>
   files (addFiles_part000 initial_state (map numbered_docx [0..<31])) \<noteq>
     files initial_state @ take (MAX_FILES - length (files initial_state))
       (map numbered_docx [0..<31]) \<and>
   status (addFiles_part000 initial_state (map numbered_docx [0..<31])) =
     \<lparr>message = [], stype = idle\<rparr> \<and>
   status (addFiles_part000 initial_state (map numbered_docx [0..<31])) \<noteq>
     \<lparr>message = msg_limit_partial 30, stype = error\<rparr>"
proof -
  have flt: "filter (\<lambda>f. isDocx f \<and> \<not> isDuplicate [] f) (map numbered_docx [0..<31]) =
      map numbered_docx [0..<31]"
    by (simp add: isDocx_numbered isDuplicate_def)
  have fl: "files (addFiles_part000 initial_state (map numbered_docx [0..<31])) =
      map numbered_docx [0..<31]"
    by (simp add: addFiles_part000_def initial_state_def flt del: upt.simps)
  have st: "status (addFiles_part000 initial_state (map numbered_docx [0..<31])) =
      \<lparr>message = [], stype = idle\<rparr>"
    by (simp add: addFiles_part000_def initial_state_def Let_def)
  have ne: "map numbered_docx [0..<31] \<noteq> take 30 (map numbered_docx [0..<31])"
  proof
    assume "map numbered_docx [0..<31] = take 30 (map numbered_docx [0..<31])"
    then have "length (map numbered_docx [0..<31]) = length (take 30 (map numbered_docx [0..<31]))"
      by (rule arg_cong)
    then show False by simp
  qed
  have room: "MAX_FILES - length (files initial_state) = 30"
    by (simp add: MAX_FILES_def initial_state_def)
  have nil: "files initial_state = []"
    by (simp add: initial_state_def)
  show ?thesis
    unfolding room fl st using ne by (simp add: nil)
qed

text \<open>
  \<^verbatim>\<open>handleSubmit\<close> of the earlier variant, on two answers with status 500 that differ
  in the text of the body only: the message of the status is that text in each run, so
  the two runs leave different messages.
\<close>

theorem part000_status_is_body_text:
  "status (fst (handleSubmit_part000 api_url (with_files [doc_a])
       (Resolves (server_error_response ''conversion failed: corrupt zip'')))) =
     \<lparr>message = ''conversion failed: corrupt zip'', stype = error\<rparr> \<and>
   status (fst (handleSubmit_part000 api_url (with_files [doc_a])
       (Resolves (server_error_response ''out of memory'')))) =
     \<lparr>message = ''out of memory'', stype = error\<rparr> \<and>
   fst (handleSubmit_part000 api_url (with_files [doc_a])
       (Resolves (server_error_response ''conversion failed: corrupt zip''))) \<noteq>
   fst (handleSubmit_part000 api_url (with_files [doc_a])
       (Resolves (server_error_response ''out of memory'')))"
  by code_simp

end
